theory Spec2Isabelle
  imports Main "HOL-Library.Monad_Syntax"
begin

section \<open>Data model\<close>

text \<open>
  A Python \<open>str\<close> is a sequence of Unicode code points, so it is modelled as a list of
  natural numbers; \<open>len\<close> counts code points. A Python \<open>bytes\<close> value is a list of
  8-bit characters. \<open>str_of\<close> writes a literal of the source as a code point list.
\<close>

type_synonym pystr = "nat list"
type_synonym bytes = "char list"

definition str_of :: "string \<Rightarrow> pystr" where
  "str_of s = map of_char s"

definition NUL :: char where
  "NUL = char_of (0::nat)"

text \<open>The exceptions and pytest outcomes that the modelled functions can end with.\<close>

datatype error =
    UnicodeEncodeError
  | FileNotFoundError
  | AssertionError string
  | CalledProcessError int
  | TimeoutExpired pystr pystr
  | Skipped string
  | Failed string

definition bind_err :: "error + 'a \<Rightarrow> ('a \<Rightarrow> error + 'b) \<Rightarrow> error + 'b" where
  "bind_err r f = (case r of Inl e \<Rightarrow> Inl e | Inr v \<Rightarrow> f v)"

text \<open>\<open>name.encode("ascii")\<close>: every code point must be below 128, otherwise the
  call raises.\<close>

definition ascii_encode :: "pystr \<Rightarrow> error + bytes" where
  "ascii_encode s =
     (if list_all (\<lambda>c. c < 128) s then Inr (map char_of s) else Inl UnicodeEncodeError)"

section \<open>cpio newc archive builder\<close>

text \<open>
  The format specification \<open>{x:08X}\<close> on a Python integer: upper-case hexadecimal digits
  of the absolute value, a leading minus sign for a negative number, and zero padding
  between sign and digits up to a total width of eight. A value that needs more than
  eight characters is not truncated.
\<close>

definition hexchar :: "nat \<Rightarrow> char" where
  "hexchar d = ''0123456789ABCDEF'' ! d"

function hexdigits :: "nat \<Rightarrow> string" where
  "hexdigits n = (if n < 16 then [hexchar n] else hexdigits (n div 16) @ [hexchar (n mod 16)])"
  by pat_completeness auto
termination
  by (relation "measure id") auto

declare hexdigits.simps [simp del]

definition fmt_08X :: "int \<Rightarrow> string" where
  "fmt_08X n =
     (let sign = (if n < 0 then ''-'' else '''');
          ds = hexdigits (nat \<bar>n\<bar>)
      in sign @ replicate (8 - length sign - length ds) CHR ''0'' @ ds)"

text \<open>\<open>_cpio_header\<close>: the magic and thirteen formatted fields. The formatted text only
  holds the characters 0-9, A-F and the minus sign, on which \<open>.encode("ascii")\<close> is the
  identity, so the header is given as bytes directly.\<close>

definition cpio_header ::
  "int \<Rightarrow> int \<Rightarrow> int \<Rightarrow> int \<Rightarrow> int \<Rightarrow> int \<Rightarrow> int \<Rightarrow> int \<Rightarrow> int \<Rightarrow> int \<Rightarrow> int \<Rightarrow> int \<Rightarrow> bytes" where
  "cpio_header ino mode uid gid nlink mtime filesize devmajor devminor rdevmajor rdevminor
     namesize =
     ''070701''
     @ fmt_08X ino
     @ fmt_08X mode
     @ fmt_08X uid
     @ fmt_08X gid
     @ fmt_08X nlink
     @ fmt_08X mtime
     @ fmt_08X filesize
     @ fmt_08X devmajor
     @ fmt_08X devminor
     @ fmt_08X rdevmajor
     @ fmt_08X rdevminor
     @ fmt_08X namesize
     @ fmt_08X 0"

text \<open>The two padding steps of \<open>_cpio_entry\<close> have the same shape,
  \<open>if n % 4: buf.write(b"\x00" * (4 - n % 4))\<close>; \<open>pad4 n\<close> is the bytes such a step
  writes.\<close>

definition pad4 :: "nat \<Rightarrow> bytes" where
  "pad4 n = (if n mod 4 \<noteq> 0 then replicate (4 - n mod 4) NUL else [])"

definition cpio_entry :: "pystr \<Rightarrow> bytes \<Rightarrow> int \<Rightarrow> int \<Rightarrow> int \<Rightarrow> error + bytes" where
  "cpio_entry name data mode ino nlink =
     (let namesize = int (length name) + 1;
          hdr = cpio_header ino mode 0 0 nlink 0 (int (length data)) 0 0 0 0 namesize
      in bind_err (ascii_encode name) (\<lambda>nm.
           let pos = length hdr + nat namesize
           in Inr (hdr @ (nm @ [NUL]) @ pad4 pos @ data @ pad4 (length data))))"

text \<open>The mode constants of the source, written in octal there: \<open>0o40755\<close>,
  \<open>0o100644\<close> and \<open>0o100755\<close>.\<close>

definition mode_dir_755 :: int where
  "mode_dir_755 = 4 * 8 ^ 4 + 7 * 8 ^ 2 + 5 * 8 + 5"

definition mode_file_644 :: int where
  "mode_file_644 = 8 ^ 5 + 6 * 8 ^ 2 + 4 * 8 + 4"

definition mode_file_755 :: int where
  "mode_file_755 = 8 ^ 5 + 7 * 8 ^ 2 + 5 * 8 + 5"

definition cpio_dir :: "pystr \<Rightarrow> int \<Rightarrow> error + bytes" where
  "cpio_dir name ino = cpio_entry name [] mode_dir_755 ino 2"

definition cpio_trailer :: "error + bytes" where
  "cpio_trailer = cpio_entry (str_of ''TRAILER!!!'') [] 0 0 1"

subsection \<open>The entries written by \<open>build_initramfs\<close>\<close>

text \<open>The \<open>for d in (...)\<close> loop: one directory entry per name, the inode counter
  incremented after each write.\<close>

fun write_dirs :: "pystr list \<Rightarrow> bytes \<times> int \<Rightarrow> error + bytes \<times> int" where
  "write_dirs [] (entries, ino) = Inr (entries, ino)"
| "write_dirs (d # ds) (entries, ino) =
     bind_err (cpio_dir d ino) (\<lambda>b. write_dirs ds (entries @ b, ino + 1))"

text \<open>\<open>build_initramfs\<close> up to \<open>raw = entries.getvalue()\<close>, as a function of the two
  file contents.\<close>

definition build_initramfs_raw :: "bytes \<Rightarrow> bytes \<Rightarrow> error + bytes" where
  "build_initramfs_raw init_data cert_data =
     (let ino = 1; entries = [] in
      bind_err (cpio_dir (str_of ''.'') ino) (\<lambda>b.
      let entries = entries @ b; ino = ino + 1 in
      bind_err (write_dirs
                  (map str_of [''dev'', ''etc'', ''etc/keys'', ''mnt'', ''proc'', ''sys''])
                  (entries, ino)) (\<lambda>(entries, ino).
      bind_err (cpio_entry (str_of ''etc/keys/x509_ima.der'') cert_data mode_file_644 ino 1)
        (\<lambda>b.
      let entries = entries @ b; ino = ino + 1 in
      bind_err (cpio_entry (str_of ''init'') init_data mode_file_755 ino 1) (\<lambda>b.
      let entries = entries @ b; ino = ino + 1 in
      bind_err cpio_trailer (\<lambda>b. Inr (entries @ b)))))))"

subsection \<open>Compression wrapper\<close>

text \<open>
  \<open>gzip.GzipFile(fileobj=buf, mode="wb", mtime=0)\<close> belongs to the Python standard
  library. Its container is modelled from the gzip format: the magic bytes, the deflate
  method, no flags (a \<open>BytesIO\<close> has no file name), the four-byte little-endian
  modification time, the extra-flags byte of the default compression level 9, the
  unknown-OS byte, the compressed stream, and the CRC-32 and length of the input. The
  time stamp is the \<open>mtime\<close> argument when one is given and the clock otherwise. The
  compressor and the checksum (zlib) are parameters.
\<close>

definition le32 :: "nat \<Rightarrow> bytes" where
  "le32 n = map (\<lambda>i. char_of (n div 256 ^ i)) [0, 1, 2, 3]"

definition gzip_header :: "int option \<Rightarrow> nat \<Rightarrow> bytes" where
  "gzip_header mtime now =
     map char_of [31, 139, 8, 0 :: nat]
     @ le32 (case mtime of None \<Rightarrow> now | Some t \<Rightarrow> nat t)
     @ map char_of [2, 255 :: nat]"

definition gzip_file ::
  "(bytes \<Rightarrow> bytes) \<Rightarrow> (bytes \<Rightarrow> nat) \<Rightarrow> int option \<Rightarrow> nat \<Rightarrow> bytes \<Rightarrow> bytes" where
  "gzip_file deflate crc32 mtime now raw =
     gzip_header mtime now @ deflate raw @ le32 (crc32 raw) @ le32 (length raw)"

text \<open>\<open>Path.read_bytes\<close> on a file system that maps a path to the content of the file
  there.\<close>

definition read_bytes :: "(pystr \<Rightarrow> bytes option) \<Rightarrow> pystr \<Rightarrow> error + bytes" where
  "read_bytes fs p = (case fs p of None \<Rightarrow> Inl FileNotFoundError | Some b \<Rightarrow> Inr b)"

text \<open>\<open>build_initramfs\<close>. The file system and the clock are the ambient state that a
  run can observe.\<close>

definition build_initramfs ::
  "(bytes \<Rightarrow> bytes) \<Rightarrow> (bytes \<Rightarrow> nat) \<Rightarrow> (pystr \<Rightarrow> bytes option) \<Rightarrow> nat
     \<Rightarrow> pystr \<Rightarrow> pystr \<Rightarrow> error + bytes" where
  "build_initramfs deflate crc32 fs now init_path cert_der_path =
     bind_err (read_bytes fs init_path) (\<lambda>init_data.
     bind_err (read_bytes fs cert_der_path) (\<lambda>cert_data.
     bind_err (build_initramfs_raw init_data cert_data) (\<lambda>raw.
     Inr (gzip_file deflate crc32 (Some 0) now raw))))"

subsection \<open>Archives as lists of entries\<close>

text \<open>The arguments of one \<open>_cpio_entry\<close> call, and the byte stream of a sequence of
  such calls followed by \<open>_cpio_trailer\<close>, which is how \<open>build_initramfs\<close> assembles
  its archive.\<close>

record centry =
  e_name :: pystr
  e_data :: bytes
  e_mode :: int
  e_ino :: int
  e_nlink :: int

definition entry_bytes :: "centry \<Rightarrow> error + bytes" where
  "entry_bytes e = cpio_entry (e_name e) (e_data e) (e_mode e) (e_ino e) (e_nlink e)"

fun write_entries :: "centry list \<Rightarrow> bytes \<Rightarrow> error + bytes" where
  "write_entries [] buf = Inr buf"
| "write_entries (e # es) buf = bind_err (entry_bytes e) (\<lambda>b. write_entries es (buf @ b))"

definition cpio_archive :: "centry list \<Rightarrow> error + bytes" where
  "cpio_archive es =
     bind_err (write_entries es []) (\<lambda>buf. bind_err cpio_trailer (\<lambda>b. Inr (buf @ b)))"

text \<open>The bytes of an entry whose name is ASCII, as \<open>_cpio_entry\<close> lays them out.\<close>

definition encoded :: "centry \<Rightarrow> bytes" where
  "encoded e =
     (let hdr = cpio_header (e_ino e) (e_mode e) 0 0 (e_nlink e) 0 (int (length (e_data e)))
                  0 0 0 0 (int (length (e_name e)) + 1)
      in hdr @ map char_of (e_name e) @ [NUL]
           @ pad4 (length hdr + (length (e_name e) + 1))
           @ e_data e @ pad4 (length (e_data e)))"

definition trailer_entry :: centry where
  "trailer_entry =
     \<lparr>e_name = str_of ''TRAILER!!!'', e_data = [], e_mode = 0, e_ino = 0, e_nlink = 1\<rparr>"

definition dir_entry :: "string \<Rightarrow> int \<Rightarrow> centry" where
  "dir_entry name ino =
     \<lparr>e_name = str_of name, e_data = [], e_mode = mode_dir_755, e_ino = ino, e_nlink = 2\<rparr>"

definition initramfs_entries :: "bytes \<Rightarrow> bytes \<Rightarrow> centry list" where
  "initramfs_entries init_data cert_data =
     [dir_entry ''.'' 1, dir_entry ''dev'' 2, dir_entry ''etc'' 3, dir_entry ''etc/keys'' 4,
      dir_entry ''mnt'' 5, dir_entry ''proc'' 6, dir_entry ''sys'' 7,
      \<lparr>e_name = str_of ''etc/keys/x509_ima.der'', e_data = cert_data,
       e_mode = mode_file_644, e_ino = 8, e_nlink = 1\<rparr>,
      \<lparr>e_name = str_of ''init'', e_data = init_data,
       e_mode = mode_file_755, e_ino = 9, e_nlink = 1\<rparr>]"

text \<open>The structural invariant of an entry list. \<open>is_dir_mode\<close> is the file-type test
  \<open>(mode & 0o170000) == 0o040000\<close>; \<open>path_prefixes\<close> gives the directories a path lies
  under, that is its prefixes up to each slash (code point 47).\<close>

definition is_dir_mode :: "int \<Rightarrow> bool" where
  "is_dir_mode m = ((m div 8 ^ 4) mod 16 = 4)"

definition path_prefixes :: "pystr \<Rightarrow> pystr list" where
  "path_prefixes p = map (\<lambda>i. take i p) (filter (\<lambda>i. p ! i = 47) [0..<length p])"

definition dirs_precede :: "centry list \<Rightarrow> bool" where
  "dirs_precede es =
     list_all (\<lambda>i. list_all (\<lambda>p. list_ex (\<lambda>j. e_name (es ! j) = p
                                              \<and> is_dir_mode (e_mode (es ! j))) [0..<i])
                      (path_prefixes (e_name (es ! i))))
       [0..<length es]"

subsection \<open>A reader of the newc format\<close>

text \<open>
  The reader is not part of the repository; it stands for a standard consumer of the
  format (\<open>cpio -i\<close>, the kernel's initramfs unpacker). It checks the magic, parses the
  fields as eight hexadecimal digits each, takes \<open>namesize\<close> bytes of name and uses them
  as a NUL-terminated string, skips to the next multiple of four, takes \<open>filesize\<close>
  bytes of content, skips to the next multiple of four, and stops at the entry named
  \<open>TRAILER!!!\<close>.
\<close>

record rentry =
  r_name :: bytes
  r_data :: bytes
  r_mode :: nat
  r_ino :: nat
  r_nlink :: nat

definition hexval :: "char \<Rightarrow> nat option" where
  "hexval c =
     (let n = (of_char c :: nat) in
      if 48 \<le> n \<and> n \<le> 57 then Some (n - 48)
      else if 65 \<le> n \<and> n \<le> 70 then Some (n - 55)
      else if 97 \<le> n \<and> n \<le> 102 then Some (n - 87)
      else None)"

fun parse_hex_acc :: "nat \<Rightarrow> bytes \<Rightarrow> nat option" where
  "parse_hex_acc a [] = Some a"
| "parse_hex_acc a (c # cs) =
     (case hexval c of None \<Rightarrow> None | Some d \<Rightarrow> parse_hex_acc (16 * a + d) cs)"

definition hfield :: "nat \<Rightarrow> bytes \<Rightarrow> nat option" where
  "hfield i bs = parse_hex_acc 0 (take 8 (drop (6 + 8 * i) bs))"

definition align4 :: "nat \<Rightarrow> nat" where
  "align4 n = (n + 3) div 4 * 4"

definition read_entry :: "bytes \<Rightarrow> (rentry \<times> bytes) option" where
  "read_entry bs =
     (if length bs < 110 \<or> take 6 bs \<noteq> ''070701'' then None
      else do {
        ino \<leftarrow> hfield 0 bs;
        mode \<leftarrow> hfield 1 bs;
        nlink \<leftarrow> hfield 4 bs;
        filesize \<leftarrow> hfield 6 bs;
        namesize \<leftarrow> hfield 11 bs;
        let data_off = align4 (110 + namesize);
        let next_off = align4 (data_off + filesize);
        if namesize = 0 \<or> length bs < data_off + filesize then None
        else Some (\<lparr>r_name = takeWhile (\<lambda>c. c \<noteq> NUL) (take namesize (drop 110 bs)),
                    r_data = take filesize (drop data_off bs),
                    r_mode = mode, r_ino = ino, r_nlink = nlink\<rparr>,
                   drop next_off bs)
      })"

text \<open>The reader's loop: the entries before the trailer, and the trailer. An entry
  always consumes its header, so the guard on the lengths only makes the recursion
  visibly terminating.\<close>

function newc_read :: "bytes \<Rightarrow> (rentry list \<times> rentry) option" where
  "newc_read bs =
     (case read_entry bs of
        None \<Rightarrow> None
      | Some (e, rest) \<Rightarrow>
          if r_name e = ''TRAILER!!!'' then Some ([], e)
          else if length rest < length bs
          then (case newc_read rest of None \<Rightarrow> None | Some (es, t) \<Rightarrow> Some (e # es, t))
          else None)"
  by pat_completeness auto
termination
  by (relation "measure length") auto

declare newc_read.simps [simp del]

text \<open>What the reader is expected to return for an entry: the name as ASCII bytes, the
  content, and the numeric fields.\<close>

definition rentry_of :: "centry \<Rightarrow> rentry" where
  "rentry_of e =
     \<lparr>r_name = map char_of (e_name e), r_data = e_data e, r_mode = nat (e_mode e),
      r_ino = nat (e_ino e), r_nlink = nat (e_nlink e)\<rparr>"

text \<open>The (name, mode, content) triple of an entry on either side; the reader's name
  is decoded from ASCII.\<close>

definition triple_of :: "centry \<Rightarrow> pystr \<times> int \<times> bytes" where
  "triple_of e = (e_name e, e_mode e, e_data e)"

definition rtriple_of :: "rentry \<Rightarrow> pystr \<times> int \<times> bytes" where
  "rtriple_of r = (map of_char (r_name r), int (r_mode r), r_data r)"

definition newc_extract :: "bytes \<Rightarrow> (pystr \<times> int \<times> bytes) list option" where
  "newc_extract bs = map_option (\<lambda>(es, t). map rtriple_of es) (newc_read bs)"

text \<open>Building an archive and reading it back.\<close>

definition read_back :: "centry list \<Rightarrow> error + (pystr \<times> int \<times> bytes) list option" where
  "read_back es = bind_err (cpio_archive es) (\<lambda>bs. Inr (newc_extract bs))"

text \<open>The entries for which the format can carry every field: an ASCII name without
  NUL that is not the sentinel, and numbers that fit eight hexadecimal digits.\<close>

definition fits32 :: "int \<Rightarrow> bool" where
  "fits32 n = (0 \<le> n \<and> n < 2 ^ 32)"

definition encodable :: "centry \<Rightarrow> bool" where
  "encodable e =
     (list_all (\<lambda>c. 0 < c \<and> c < 128) (e_name e)
      \<and> fits32 (int (length (e_name e)) + 1)
      \<and> fits32 (int (length (e_data e)))
      \<and> fits32 (e_mode e) \<and> fits32 (e_ino e) \<and> fits32 (e_nlink e))"

definition representable :: "centry \<Rightarrow> bool" where
  "representable e = (encodable e \<and> e_name e \<noteq> str_of ''TRAILER!!!'')"

section \<open>External processes\<close>

text \<open>
  \<open>subprocess.run\<close> (Python standard library) is modelled by what it does with the
  child's behaviour: a child that exits gives a \<open>CompletedProcess\<close>, and a non-zero
  exit code raises \<open>CalledProcessError\<close> under \<open>check=True\<close>; a child still running
  when the timeout expires is killed and \<open>TimeoutExpired\<close>, which carries the output
  captured so far, is raised.
\<close>

record completed =
  returncode :: int
  stdout :: pystr
  stderr :: pystr

datatype proc_outcome = Exited completed | Expired pystr pystr

definition subprocess_run :: "proc_outcome \<Rightarrow> bool \<Rightarrow> error + completed" where
  "subprocess_run outcome check =
     (case outcome of
        Expired out err \<Rightarrow> Inl (TimeoutExpired out err)
      | Exited r \<Rightarrow>
          if check \<and> returncode r \<noteq> 0 then Inl (CalledProcessError (returncode r))
          else Inr r)"

section \<open>Python string operations\<close>

text \<open>\<open>str.isspace\<close> on one code point, and the line boundaries of
  \<open>str.splitlines\<close>, as the Python documentation lists them.\<close>

definition py_isspace :: "nat \<Rightarrow> bool" where
  "py_isspace c =
     (c \<in> set [9, 10, 11, 12, 13, 28, 29, 30, 31, 32, 133, 160, 5760]
      \<or> (8192 \<le> c \<and> c \<le> 8202)
      \<or> c \<in> set [8232, 8233, 8239, 8287, 12288])"

definition is_linebreak :: "nat \<Rightarrow> bool" where
  "is_linebreak c = (c \<in> set [10, 11, 12, 13, 28, 29, 30, 133, 8232, 8233])"

definition py_strip :: "pystr \<Rightarrow> pystr" where
  "py_strip s = rev (dropWhile py_isspace (rev (dropWhile py_isspace s)))"

text \<open>\<open>splitlines_from cur s\<close> continues a split with \<open>cur\<close> the line read so far;
  carriage return followed by line feed is one boundary, and a final boundary opens no
  further line.\<close>

fun splitlines_from :: "pystr \<Rightarrow> pystr \<Rightarrow> pystr list" where
  "splitlines_from cur [] = (if cur = [] then [] else [cur])"
| "splitlines_from cur [c] = (if is_linebreak c then [cur] else [cur @ [c]])"
| "splitlines_from cur (c # d # cs) =
     (if c = 13 \<and> d = 10 then cur # splitlines_from [] cs
      else if is_linebreak c then cur # splitlines_from [] (d # cs)
      else splitlines_from (cur @ [c]) (d # cs))"

definition py_splitlines :: "pystr \<Rightarrow> pystr list" where
  "py_splitlines s = splitlines_from [] s"

text \<open>\<open>line.split(None, 1)\<close>: leading whitespace is skipped, the first token ends at
  the next whitespace, and everything after the whitespace run that follows it is the
  second part, trailing whitespace included.\<close>

definition py_split_1 :: "pystr \<Rightarrow> pystr list" where
  "py_split_1 s =
     (let s1 = dropWhile py_isspace s in
      if s1 = [] then []
      else
        let tok = takeWhile (\<lambda>c. \<not> py_isspace c) s1;
            rest = dropWhile py_isspace (dropWhile (\<lambda>c. \<not> py_isspace c) s1)
        in if rest = [] then [tok] else [tok, rest])"

text \<open>The last whitespace-separated token of a line (the last element of
  \<open>line.split()\<close>; empty when the line has no token).\<close>

definition last_token :: "pystr \<Rightarrow> pystr" where
  "last_token s = rev (takeWhile (\<lambda>c. \<not> py_isspace c) (dropWhile py_isspace (rev s)))"

text \<open>\<open>s.split()\<close>: the whitespace-separated tokens of a string. \<open>tokens_from cur s\<close>
  continues a split with \<open>cur\<close> the token read so far.\<close>

fun tokens_from :: "pystr \<Rightarrow> pystr \<Rightarrow> pystr list" where
  "tokens_from cur [] = (if cur = [] then [] else [cur])"
| "tokens_from cur (c # cs) =
     (if py_isspace c then (if cur = [] then tokens_from [] cs else cur # tokens_from [] cs)
      else tokens_from (cur @ [c]) cs)"

definition py_split :: "pystr \<Rightarrow> pystr list" where
  "py_split s = tokens_from [] s"

text \<open>What is left of a line after its first token and the whitespace behind it.\<close>

definition after_first_token :: "pystr \<Rightarrow> pystr" where
  "after_first_token s =
     dropWhile py_isspace (dropWhile (\<lambda>c. \<not> py_isspace c) (dropWhile py_isspace s))"

text \<open>\<open>s.split(sep)\<close> for a separator of one character: the pieces between the
  separators, empty pieces included.\<close>

fun split_from :: "nat \<Rightarrow> pystr \<Rightarrow> pystr \<Rightarrow> pystr list" where
  "split_from sep cur [] = [cur]"
| "split_from sep cur (c # cs) =
     (if c = sep then cur # split_from sep [] cs else split_from sep (cur @ [c]) cs)"


text \<open>\<open>needle in hay\<close> on strings.\<close>

fun starts_with :: "pystr \<Rightarrow> pystr \<Rightarrow> bool" where
  "starts_with [] hay = True"
| "starts_with (n # ns) [] = False"
| "starts_with (n # ns) (h # hs) = (n = h \<and> starts_with ns hs)"

fun py_in :: "pystr \<Rightarrow> pystr \<Rightarrow> bool" where
  "py_in needle [] = (needle = [])"
| "py_in needle (h # hs) = (starts_with needle (h # hs) \<or> py_in needle hs)"

section \<open>buck2 build helper\<close>

text \<open>
  \<open>pathlib.Path(text)\<close> (Python standard library, POSIX flavour) keeps a root and the
  list of path components: the text is cut at the slashes (code point 47), empty
  components and components that are a single dot (code point 46) are dropped, and
  the root is \<open>//\<close> for exactly two leading slashes, \<open>/\<close> for any other number of
  leading slashes and empty for none. Two texts with the same root and components are
  the same path.
\<close>

datatype path = PosixPath pystr "pystr list"

definition Path :: "pystr \<Rightarrow> path" where
  "Path s =
     (let n = length (takeWhile (\<lambda>c. c = 47) s);
          root = (if n = 0 then [] else if n = 2 then [47, 47] else [47])
      in PosixPath root (filter (\<lambda>c. c \<noteq> [] \<and> c \<noteq> [46]) (split_from 47 [] s)))"

text \<open>The loop over the output lines of \<open>_buck2_build\<close>.\<close>

fun first_output_path :: "pystr list \<Rightarrow> pystr option" where
  "first_output_path [] = None"
| "first_output_path (line # ls) =
     (let parts = py_split_1 line in
      if length parts = 2 then Some (parts ! 1) else first_output_path ls)"

text \<open>\<open>_buck2_build\<close>. \<open>on_path\<close> says whether \<open>shutil.which("buck2")\<close> finds the tool,
  \<open>buck2\<close> is the behaviour of the tool on a command line under a timeout, and
  \<open>iso_id\<close> is the random part of the isolation directory name.\<close>

definition buck2_build ::
  "bool \<Rightarrow> (pystr list \<Rightarrow> int \<Rightarrow> proc_outcome) \<Rightarrow> pystr \<Rightarrow> pystr \<Rightarrow> int \<Rightarrow> error + path" where
  "buck2_build on_path buck2 iso_id target timeout =
     (if \<not> on_path then Inl (Skipped ''buck2 not found on PATH'')
      else
        let iso_name = str_of ''ima-'' @ iso_id in
        bind_err (subprocess_run
                    (buck2 [str_of ''buck2'', str_of ''--isolation-dir'', iso_name,
                            str_of ''build'', str_of ''--show-full-output'',
                            str_of ''-c'', str_of ''buckos.use_host_toolchain=true'',
                            target] timeout) False) (\<lambda>result.
        if returncode result \<noteq> 0 then Inl (AssertionError ''buck2 build failed'')
        else
          (case first_output_path (py_splitlines (py_strip (stdout result))) of
             Some p \<Rightarrow> Inr (Path p)
           | None \<Rightarrow> Inl (Failed ''Could not parse output path''))))"

section \<open>ext4 image builder\<close>









section \<open>QEMU runner\<close>

text \<open>\<open>run_qemu\<close>. \<open>qemu\<close> is the behaviour of the emulator on a command line, with the
  bytes of the initrd file it is pointed to, under a timeout; \<open>work\<close> is the fresh
  directory of \<open>tempfile.mkdtemp\<close>.\<close>

definition run_qemu ::
  "(pystr list \<Rightarrow> bytes \<Rightarrow> int \<Rightarrow> proc_outcome) \<Rightarrow> pystr \<Rightarrow> bytes \<Rightarrow> pystr \<Rightarrow> pystr \<Rightarrow> pystr
     \<Rightarrow> int \<Rightarrow> error + pystr" where
  "run_qemu qemu kernel_path initramfs_data disk cmdline_extra work timeout =
     (let initrd = work @ str_of ''/initramfs.cpio.gz'';
          cmd = [str_of ''qemu-system-x86_64'',
                 str_of ''-kernel'', kernel_path,
                 str_of ''-initrd'', initrd,
                 str_of ''-drive'',
                 str_of ''file='' @ disk @ str_of '',format=raw,if=virtio,readonly=on'',
                 str_of ''-append'', str_of ''console=ttyS0 panic=-1 '' @ cmdline_extra,
                 str_of ''-nographic'',
                 str_of ''-no-reboot'', str_of ''-m'', str_of ''256M'',
                 str_of ''-enable-kvm'', str_of ''-cpu'', str_of ''host'']
      in
      bind_err (subprocess_run (qemu cmd initramfs_data timeout) False) (\<lambda>result.
      Inr (stdout result @ stderr result)))"

section \<open>Test cases\<close>

text \<open>
  The three tests of \<open>TestImaQemu\<close>. Each builds the disk image and the initramfs,
  boots, and asserts on the output; the three stages are parameters:
  \<open>build_image signed\<close> is the \<open>build_ext4_image\<close> call, \<open>build_ramfs\<close> the
  \<open>build_initramfs\<close> call and \<open>boot ramfs disk cmdline_extra\<close> the \<open>run_qemu\<close> call
  of the test, with the default timeout.
\<close>

definition py_assert :: "bool \<Rightarrow> string \<Rightarrow> error + unit" where
  "py_assert c msg = (if c then Inr () else Inl (AssertionError msg))"

definition test_enforced_signed_binary_runs ::
  "(bool \<Rightarrow> error + pystr) \<Rightarrow> (error + bytes) \<Rightarrow> (bytes \<Rightarrow> pystr \<Rightarrow> pystr \<Rightarrow> error + pystr)
     \<Rightarrow> error + unit" where
  "test_enforced_signed_binary_runs build_image build_ramfs boot =
     bind_err (build_image True) (\<lambda>disk.
     bind_err build_ramfs (\<lambda>ramfs.
     bind_err (boot ramfs disk (str_of ''ima_appraise=enforce ima_test_mode=enforce_signed''))
       (\<lambda>output.
     bind_err (py_assert (py_in (str_of ''IMA-TEST-PASS'') output) ''Binary did not run'')
       (\<lambda>_.
     py_assert (py_in (str_of ''IMA-RESULT:PASS'') output) ''Init reported failure''))))"

definition test_enforced_unsigned_binary_rejected ::
  "(bool \<Rightarrow> error + pystr) \<Rightarrow> (error + bytes) \<Rightarrow> (bytes \<Rightarrow> pystr \<Rightarrow> pystr \<Rightarrow> error + pystr)
     \<Rightarrow> error + unit" where
  "test_enforced_unsigned_binary_rejected build_image build_ramfs boot =
     bind_err (build_image False) (\<lambda>disk.
     bind_err build_ramfs (\<lambda>ramfs.
     bind_err (boot ramfs disk (str_of ''ima_appraise=enforce ima_test_mode=enforce_unsigned''))
       (\<lambda>output.
     bind_err (py_assert (\<not> py_in (str_of ''IMA-TEST-PASS'') output)
                 ''Unsigned binary should not have run'') (\<lambda>_.
     py_assert (py_in (str_of ''IMA-RESULT:PASS'') output)
       ''Init should report EACCES as expected''))))"

definition test_disabled_unsigned_binary_runs ::
  "(bool \<Rightarrow> error + pystr) \<Rightarrow> (error + bytes) \<Rightarrow> (bytes \<Rightarrow> pystr \<Rightarrow> pystr \<Rightarrow> error + pystr)
     \<Rightarrow> error + unit" where
  "test_disabled_unsigned_binary_runs build_image build_ramfs boot =
     bind_err (build_image False) (\<lambda>disk.
     bind_err build_ramfs (\<lambda>ramfs.
     bind_err (boot ramfs disk (str_of ''ima_appraise=off ima_test_mode=noima'')) (\<lambda>output.
     bind_err (py_assert (py_in (str_of ''IMA-TEST-PASS'') output) ''Binary did not run'')
       (\<lambda>_.
     py_assert (py_in (str_of ''IMA-RESULT:PASS'') output) ''Init reported failure''))))"

section \<open>Properties of the archive builder\<close>

subsection \<open>Formatting\<close>

lemma hexdigits_small: "n < 16 \<Longrightarrow> hexdigits n = [hexchar n]"
  by (subst hexdigits.simps) simp

lemma hexdigits_big:
  "\<not> n < 16 \<Longrightarrow> hexdigits n = hexdigits (n div 16) @ [hexchar (n mod 16)]"
  by (subst hexdigits.simps) simp

lemma replicate_num: "replicate (numeral k) x = x # replicate (pred_numeral k) x"
  by (simp add: numeral_eq_Suc)

lemmas hex_eval = fmt_08X_def hexdigits_small hexdigits_big hexchar_def replicate_num

lemma length_hexdigits_le: "n < 16 ^ k \<Longrightarrow> 0 < k \<Longrightarrow> length (hexdigits n) \<le> k"
proof (induction n arbitrary: k rule: hexdigits.induct)
  case (1 n)
  show ?case
  proof (cases "n < 16")
    case True
    with "1.prems" show ?thesis by (simp add: hexdigits_small)
  next
    case False
    from "1.prems" obtain j where k: "k = Suc j" by (cases k) auto
    from False "1.prems" k have j: "0 < j" by (cases j) auto
    from "1.prems" k have "n div 16 < 16 ^ j"
      by (simp add: less_mult_imp_div_less mult.commute)
    from "1.IH" [OF False this j] show ?thesis
      using False k by (simp add: hexdigits_big)
  qed
qed

lemma length_fmt_08X: "0 \<le> n \<Longrightarrow> n < 2 ^ 32 \<Longrightarrow> length (fmt_08X n) = 8"
proof -
  assume n: "0 \<le> n" "n < 2 ^ 32"
  then have "nat \<bar>n\<bar> < 16 ^ 8" by simp
  then have "length (hexdigits (nat \<bar>n\<bar>)) \<le> 8" by (rule length_hexdigits_le) simp
  with n show ?thesis by (simp add: fmt_08X_def Let_def)
qed

lemma length_cpio_header:
  assumes "0 \<le> ino" "ino < 2 ^ 32" "0 \<le> mode" "mode < 2 ^ 32" "0 \<le> nlink" "nlink < 2 ^ 32"
    "0 \<le> fs" "fs < 2 ^ 32" "0 \<le> ns" "ns < 2 ^ 32"
  shows "length (cpio_header ino mode 0 0 nlink 0 fs 0 0 0 0 ns) = 110"
  using assms by (simp add: cpio_header_def length_fmt_08X)

subsection \<open>One entry\<close>

lemma cpio_entry_ascii:
  "list_all (\<lambda>c. c < 128) name \<Longrightarrow>
   cpio_entry name data mode ino nlink =
     Inr (cpio_header ino mode 0 0 nlink 0 (int (length data)) 0 0 0 0 (int (length name) + 1)
          @ map char_of name @ [NUL]
          @ pad4 (length (cpio_header ino mode 0 0 nlink 0 (int (length data)) 0 0 0 0
                    (int (length name) + 1)) + (length name + 1))
          @ data @ pad4 (length data))"
  by (simp add: cpio_entry_def ascii_encode_def bind_err_def Let_def nat_add_distrib)

lemma cpio_entry_not_ascii:
  "\<not> list_all (\<lambda>c. c < 128) name \<Longrightarrow>
   cpio_entry name data mode ino nlink = Inl UnicodeEncodeError"
  by (simp add: cpio_entry_def ascii_encode_def bind_err_def Let_def)

text \<open>
  Claim C3. The entry that \<open>_cpio_entry\<close> builds for the name \<open>init\<close>, 100 bytes of
  content and inode 5 carries, in the filesize field (the eight bytes at offset 54),
  the eight-digit hexadecimal encoding of 100, and in the namesize field (the eight
  bytes at offset 94) the encoding of \<open>len("init") + 1\<close>, that is 5: the recorded name
  length counts the terminating NUL. Mode and link count are any values that fit their
  fields.
\<close>

theorem cpio_entry_init_fields:
  assumes "length data = 100" "0 \<le> mode" "mode < 2 ^ 32" "0 \<le> nlink" "nlink < 2 ^ 32"
  shows "\<exists>bs. cpio_entry (str_of ''init'') data mode 5 nlink = Inr bs
           \<and> take 8 (drop 54 bs) = fmt_08X 100
           \<and> fmt_08X 100 = ''00000064''
           \<and> take 8 (drop 94 bs) = fmt_08X (int (length (str_of ''init'')) + 1)
           \<and> fmt_08X (int (length (str_of ''init'')) + 1) = ''00000005''"
proof -
  have a: "list_all (\<lambda>c. c < 128) (str_of ''init'')" by (simp add: str_of_def)
  have l: "length (str_of ''init'') = 4" by (simp add: str_of_def)
  have f1: "fmt_08X 100 = ''00000064''" by (simp add: hex_eval)
  have f2: "fmt_08X 5 = ''00000005''" by (simp add: hex_eval)
  have f0: "fmt_08X 0 = ''00000000''" by (simp add: hex_eval)
  from assms have lm: "length (fmt_08X mode) = 8" and ln: "length (fmt_08X nlink) = 8"
    by (simp_all add: length_fmt_08X)
  show ?thesis
    using assms(1) lm ln
    by (simp add: cpio_entry_ascii [OF a] l cpio_header_def f1 f2 f0)
qed

theorem cpio_entry_init_fields_witness:
  "\<exists>bs. cpio_entry (str_of ''init'') (replicate 100 CHR ''x'') 33261 5 1 = Inr bs
           \<and> take 8 (drop 54 bs) = ''00000064''
           \<and> take 8 (drop 94 bs) = ''00000005''"
  using cpio_entry_init_fields [of "replicate 100 CHR ''x''" 33261 1] by auto

text \<open>
  Claim C4. Whenever \<open>_cpio_entry\<close> returns, its result is the header, the name with
  its NUL, the name padding, the content and the content padding; header length plus
  namesize plus name padding is a multiple of four, content length plus content
  padding is a multiple of four, and a part whose length is already a multiple of four
  gets no padding bytes. Every padding is fewer than four NUL bytes.
\<close>

theorem cpio_entry_padding:
  assumes "cpio_entry name data mode ino nlink = Inr bs"
  shows "\<exists>nm. ascii_encode name = Inr nm \<and> length nm = length name
      \<and> (let hdr = cpio_header ino mode 0 0 nlink 0 (int (length data)) 0 0 0 0
                     (int (length name) + 1);
              namesize = length name + 1;
              npad = pad4 (length hdr + namesize);
              dpad = pad4 (length data)
          in bs = hdr @ nm @ [NUL] @ npad @ data @ dpad
           \<and> (length hdr + namesize + length npad) mod 4 = 0
           \<and> (length data + length dpad) mod 4 = 0
           \<and> ((length hdr + namesize) mod 4 = 0 \<longrightarrow> npad = [])
           \<and> (length data mod 4 = 0 \<longrightarrow> dpad = [])
           \<and> length npad < 4 \<and> length dpad < 4
           \<and> set npad \<subseteq> {NUL} \<and> set dpad \<subseteq> {NUL})"
proof -
  have p: "(n + length (pad4 n)) mod 4 = 0" for n
    by (simp add: pad4_def) presburger
  have q: "length (pad4 n) < 4" for n by (simp add: pad4_def)
  have r: "set (pad4 n) \<subseteq> {NUL}" for n by (auto simp: pad4_def)
  have z: "n mod 4 = 0 \<Longrightarrow> pad4 n = []" for n by (simp add: pad4_def)
  from assms have a: "list_all (\<lambda>c. c < 128) name"
    by (simp add: cpio_entry_def ascii_encode_def bind_err_def Let_def split: if_splits)
  with assms show ?thesis
    using p q r z
    by (simp add: cpio_entry_ascii [OF a] ascii_encode_def Let_def)
qed

theorem cpio_entry_padding_witness:
  "\<exists>bs. cpio_entry (str_of ''ab'') ''xyz'' 33188 7 1 = Inr bs
     \<and> (\<exists>nm. ascii_encode (str_of ''ab'') = Inr nm \<and> length nm = length (str_of ''ab'')
      \<and> (let hdr = cpio_header 7 33188 0 0 1 0 (int (length ''xyz'')) 0 0 0 0
                     (int (length (str_of ''ab'')) + 1);
              namesize = length (str_of ''ab'') + 1;
              npad = pad4 (length hdr + namesize);
              dpad = pad4 (length ''xyz'')
          in bs = hdr @ nm @ [NUL] @ npad @ ''xyz'' @ dpad
           \<and> (length hdr + namesize + length npad) mod 4 = 0
           \<and> (length ''xyz'' + length dpad) mod 4 = 0
           \<and> ((length hdr + namesize) mod 4 = 0 \<longrightarrow> npad = [])
           \<and> (length ''xyz'' mod 4 = 0 \<longrightarrow> dpad = [])
           \<and> length npad < 4 \<and> length dpad < 4
           \<and> set npad \<subseteq> {NUL} \<and> set dpad \<subseteq> {NUL}))"
proof -
  have "list_all (\<lambda>c. c < 128) (str_of ''ab'')" by (simp add: str_of_def)
  then obtain bs where e: "cpio_entry (str_of ''ab'') ''xyz'' 33188 7 1 = Inr bs"
    by (simp add: cpio_entry_ascii)
  from cpio_entry_padding [OF e] e show ?thesis by blast
qed

lemma cpio_entry_error: "cpio_entry name data mode ino nlink = Inl x \<Longrightarrow> x = UnicodeEncodeError"
  by (simp add: cpio_entry_def ascii_encode_def bind_err_def Let_def split: if_splits)

lemma write_entries_not_ascii:
  "\<exists>e\<in>set es. \<not> list_all (\<lambda>c. c < 128) (e_name e) \<Longrightarrow>
   write_entries es buf = Inl UnicodeEncodeError"
proof (induction es arbitrary: buf)
  case Nil
  then show ?case by simp
next
  case (Cons e es)
  show ?case
  proof (cases "entry_bytes e")
    case (Inl x)
    then have "x = UnicodeEncodeError" by (simp add: entry_bytes_def cpio_entry_error)
    with Inl show ?thesis by (simp add: bind_err_def)
  next
    case (Inr b)
    then have "list_all (\<lambda>c. c < 128) (e_name e)"
      by (simp add: entry_bytes_def cpio_entry_def ascii_encode_def bind_err_def Let_def
          split: if_splits)
    with Cons.prems have "\<exists>e\<in>set es. \<not> list_all (\<lambda>c. c < 128) (e_name e)" by auto
    from Cons.IH [OF this] Inr show ?thesis by (simp add: bind_err_def)
  qed
qed

text \<open>
  Claim C10. A name with a code point outside the ASCII range makes \<open>_cpio_entry\<close>
  raise the encoding error, so no bytes are returned for the entry; and a sequence of
  entry writes followed by the trailer, which is how \<open>build_initramfs\<close> assembles its
  archive, raises the same error when any of its entries has such a name.
\<close>

theorem cpio_entry_non_ascii:
  "((\<exists>c\<in>set name. 128 \<le> c) \<longrightarrow> cpio_entry name data mode ino nlink = Inl UnicodeEncodeError)
   \<and> ((\<exists>e\<in>set es. \<exists>c\<in>set (e_name e). 128 \<le> c) \<longrightarrow> cpio_archive es = Inl UnicodeEncodeError)"
proof (intro conjI impI)
  assume "\<exists>c\<in>set name. 128 \<le> c"
  then have "\<not> list_all (\<lambda>c. c < 128) name"
    by (auto simp: list_all_iff not_less)
  then show "cpio_entry name data mode ino nlink = Inl UnicodeEncodeError"
    by (rule cpio_entry_not_ascii)
next
  assume "\<exists>e\<in>set es. \<exists>c\<in>set (e_name e). 128 \<le> c"
  then have "\<exists>e\<in>set es. \<not> list_all (\<lambda>c. c < 128) (e_name e)"
    by (auto simp: list_all_iff not_less)
  then have "write_entries es [] = Inl UnicodeEncodeError"
    by (rule write_entries_not_ascii)
  then show "cpio_archive es = Inl UnicodeEncodeError"
    by (simp add: cpio_archive_def bind_err_def)
qed

theorem cpio_entry_non_ascii_witness:
  "cpio_entry [105, 110, 233, 116] ''x'' 33188 1 1 = Inl UnicodeEncodeError
   \<and> cpio_archive [\<lparr>e_name = [233], e_data = [], e_mode = 33188, e_ino = 1, e_nlink = 1\<rparr>]
       = Inl UnicodeEncodeError"
  using cpio_entry_non_ascii [of "[105, 110, 233, 116]" "''x''" 33188 1 1
      "[\<lparr>e_name = [233], e_data = [], e_mode = 33188, e_ino = 1, e_nlink = 1\<rparr>]"]
  by simp

subsection \<open>Entry lists\<close>

lemma cpio_entry_encoded:
  "list_all (\<lambda>c. c < 128) name \<Longrightarrow>
   cpio_entry name data mode ino nlink =
     Inr (encoded \<lparr>e_name = name, e_data = data, e_mode = mode, e_ino = ino, e_nlink = nlink\<rparr>)"
  by (simp add: cpio_entry_ascii encoded_def Let_def)

lemma entry_bytes_encoded:
  "list_all (\<lambda>c. c < 128) (e_name e) \<Longrightarrow> entry_bytes e = Inr (encoded e)"
  by (simp add: entry_bytes_def cpio_entry_ascii encoded_def Let_def)

lemma write_entries_encoded:
  "\<forall>e\<in>set es. list_all (\<lambda>c. c < 128) (e_name e) \<Longrightarrow>
   write_entries es buf = Inr (buf @ concat (map encoded es))"
  by (induction es arbitrary: buf) (simp_all add: entry_bytes_encoded bind_err_def)

lemma ascii_trailer: "list_all (\<lambda>c. c < 128) (str_of ''TRAILER!!!'')"
  by (simp add: str_of_def)

lemma cpio_trailer_encoded: "cpio_trailer = Inr (encoded trailer_entry)"
  by (simp add: cpio_trailer_def trailer_entry_def cpio_entry_encoded ascii_trailer)

lemma cpio_archive_encoded:
  "\<forall>e\<in>set es. list_all (\<lambda>c. c < 128) (e_name e) \<Longrightarrow>
   cpio_archive es = Inr (concat (map encoded es) @ encoded trailer_entry)"
  by (simp add: cpio_archive_def write_entries_encoded cpio_trailer_encoded bind_err_def)

lemma ascii_names:
  "list_all (\<lambda>c. c < 128) (str_of ''.'')"
  "list_all (\<lambda>c. c < 128) (str_of ''dev'')"
  "list_all (\<lambda>c. c < 128) (str_of ''etc'')"
  "list_all (\<lambda>c. c < 128) (str_of ''etc/keys'')"
  "list_all (\<lambda>c. c < 128) (str_of ''mnt'')"
  "list_all (\<lambda>c. c < 128) (str_of ''proc'')"
  "list_all (\<lambda>c. c < 128) (str_of ''sys'')"
  "list_all (\<lambda>c. c < 128) (str_of ''etc/keys/x509_ima.der'')"
  "list_all (\<lambda>c. c < 128) (str_of ''init'')"
  by (simp_all add: str_of_def)

lemma build_initramfs_raw_encoded:
  "build_initramfs_raw init_data cert_data =
     Inr (concat (map encoded (initramfs_entries init_data cert_data)) @ encoded trailer_entry)"
  by (simp add: build_initramfs_raw_def cpio_dir_def cpio_entry_encoded ascii_names
      cpio_trailer_encoded bind_err_def initramfs_entries_def dir_entry_def Let_def)

lemma build_initramfs_raw_archive:
  "build_initramfs_raw init_data cert_data = cpio_archive (initramfs_entries init_data cert_data)"
proof -
  have "\<forall>e\<in>set (initramfs_entries init_data cert_data). list_all (\<lambda>c. c < 128) (e_name e)"
    by (simp add: initramfs_entries_def dir_entry_def ascii_names)
  then show ?thesis
    by (simp add: cpio_archive_encoded build_initramfs_raw_encoded)
qed

lemma le32_zero: "le32 0 = replicate 4 NUL"
  by (simp add: le32_def NUL_def replicate_num)

text \<open>
  Claim C5. Two runs of \<open>build_initramfs\<close> that read the same init and certificate
  contents, from whatever paths and file systems and at whatever clock times, build the
  same archive byte stream and return the same compressed bytes; the time stamp field
  of the compressed container (bytes 4 to 7) is zero. The entry names, modes and
  inodes are fixed by the function, so the contents are its only inputs.
\<close>

theorem build_initramfs_deterministic:
  assumes "fs_a init_a = Some init_data" "fs_a cert_a = Some cert_data"
    and "fs_b init_b = Some init_data" "fs_b cert_b = Some cert_data"
  shows "\<exists>raw gz. build_initramfs_raw init_data cert_data = Inr raw
     \<and> build_initramfs deflate crc fs_a now_a init_a cert_a = Inr gz
     \<and> build_initramfs deflate crc fs_b now_b init_b cert_b = Inr gz
     \<and> gz = gzip_header (Some 0) 0 @ deflate raw @ le32 (crc raw) @ le32 (length raw)
     \<and> take 4 (drop 4 gz) = replicate 4 NUL"
  using assms
  by (simp add: build_initramfs_def read_bytes_def build_initramfs_raw_encoded bind_err_def
      gzip_file_def gzip_header_def le32_zero)

theorem build_initramfs_deterministic_witness:
  "\<exists>raw gz. build_initramfs_raw ''ELF'' ''DER'' = Inr raw
     \<and> build_initramfs id length [[1] \<mapsto> ''ELF'', [2] \<mapsto> ''DER''] 1700000000 [1] [2] = Inr gz
     \<and> build_initramfs id length [[3] \<mapsto> ''DER'', [4] \<mapsto> ''ELF''] 1800000000 [4] [3] = Inr gz
     \<and> gz = gzip_header (Some 0) 0 @ id raw @ le32 (length raw) @ le32 (length raw)
     \<and> take 4 (drop 4 gz) = replicate 4 NUL"
  using build_initramfs_deterministic [where fs_a = "[[1] \<mapsto> ''ELF'', [2] \<mapsto> ''DER'']"
      and init_a = "[1]" and cert_a = "[2]" and init_data = "''ELF''" and cert_data = "''DER''"
      and fs_b = "[[3] \<mapsto> ''DER'', [4] \<mapsto> ''ELF'']" and init_b = "[4]" and cert_b = "[3]"
      and deflate = id and crc = length and now_a = 1700000000 and now_b = 1800000000]
  by simp

subsection \<open>Reading an archive back\<close>

lemma hexval_hexchar: "d < 16 \<Longrightarrow> hexval (hexchar d) = Some d"
proof -
  assume "d < 16"
  then have "d \<in> {0, 1, 2, 3, 4, 5, 6, 7, 8, 9, 10, 11, 12, 13, 14, 15}" by simp arith
  then show ?thesis
    by (elim insertE emptyE) (simp_all add: hexchar_def hexval_def)
qed

lemma parse_hex_acc_append:
  "parse_hex_acc a (xs @ ys) =
     (case parse_hex_acc a xs of None \<Rightarrow> None | Some b \<Rightarrow> parse_hex_acc b ys)"
  by (induction xs arbitrary: a) (simp_all split: option.splits)

lemma parse_hex_acc_zeros: "parse_hex_acc 0 (replicate k CHR ''0'') = Some 0"
  by (induction k) (simp_all add: hexval_def)

lemma parse_hex_hexdigits: "parse_hex_acc 0 (hexdigits n) = Some n"
proof (induction n rule: hexdigits.induct)
  case (1 n)
  show ?case
  proof (cases "n < 16")
    case True
    then show ?thesis by (simp add: hexdigits_small hexval_hexchar)
  next
    case False
    have "hexval (hexchar (n mod 16)) = Some (n mod 16)" by (simp add: hexval_hexchar)
    with "1.IH" [OF False] False show ?thesis
      by (simp add: hexdigits_big parse_hex_acc_append)
  qed
qed

lemma parse_fmt_08X: "0 \<le> n \<Longrightarrow> parse_hex_acc 0 (fmt_08X n) = Some (nat n)"
  by (simp add: fmt_08X_def Let_def parse_hex_acc_append parse_hex_acc_zeros
      parse_hex_hexdigits)

lemma fits32_length: "fits32 n \<Longrightarrow> length (fmt_08X n) = 8"
  by (simp add: fits32_def length_fmt_08X)

lemma fits32_parse: "fits32 n \<Longrightarrow> parse_hex_acc 0 (fmt_08X n) = Some (nat n)"
  by (simp add: fits32_def parse_fmt_08X)

lemma fits32_0: "fits32 0"
  by (simp add: fits32_def)

lemma header_fields:
  assumes "fits32 ino" "fits32 mode" "fits32 nlink" "fits32 fs" "fits32 ns"
  shows "length (cpio_header ino mode 0 0 nlink 0 fs 0 0 0 0 ns) = 110"
    and "take 6 (cpio_header ino mode 0 0 nlink 0 fs 0 0 0 0 ns @ rest) = ''070701''"
    and "hfield 0 (cpio_header ino mode 0 0 nlink 0 fs 0 0 0 0 ns @ rest) = Some (nat ino)"
    and "hfield 1 (cpio_header ino mode 0 0 nlink 0 fs 0 0 0 0 ns @ rest) = Some (nat mode)"
    and "hfield 4 (cpio_header ino mode 0 0 nlink 0 fs 0 0 0 0 ns @ rest) = Some (nat nlink)"
    and "hfield 6 (cpio_header ino mode 0 0 nlink 0 fs 0 0 0 0 ns @ rest) = Some (nat fs)"
    and "hfield 11 (cpio_header ino mode 0 0 nlink 0 fs 0 0 0 0 ns @ rest) = Some (nat ns)"
  using assms fits32_0
  by (simp_all add: cpio_header_def hfield_def fits32_length fits32_parse)

lemma align4_pad4: "align4 n = n + length (pad4 n)"
  by (simp add: align4_def pad4_def) presburger

lemma encodable_ascii: "encodable e \<Longrightarrow> list_all (\<lambda>c. c < 128) (e_name e)"
  by (auto simp: encodable_def list_all_iff)

lemma encodable_no_NUL: "encodable e \<Longrightarrow> NUL \<notin> set (map char_of (e_name e))"
proof
  assume e: "encodable e" and "NUL \<in> set (map char_of (e_name e))"
  then obtain c where c: "c \<in> set (e_name e)" "char_of c = NUL" by auto
  with e have "0 < c" "c < 128" by (auto simp: encodable_def list_all_iff)
  then have "of_char (char_of c :: char) = c" by simp
  with c have "c = 0" by (simp add: NUL_def)
  with \<open>0 < c\<close> show False by simp
qed

lemma encodable_decode: "encodable e \<Longrightarrow> map of_char (map char_of (e_name e)) = e_name e"
proof -
  assume "encodable e"
  then have "\<forall>c\<in>set (e_name e). c < 128" by (auto simp: encodable_def list_all_iff)
  then have "\<forall>c\<in>set (e_name e). c < 256" by auto
  then have "\<forall>c\<in>set (e_name e). of_char (char_of c :: char) = c" by simp
  then show ?thesis by (simp add: map_idI)
qed

lemma read_entry_encoded:
  assumes "encodable e"
  shows "read_entry (encoded e @ rest) = Some (rentry_of e, rest)"
proof -
  define hdr where "hdr = cpio_header (e_ino e) (e_mode e) 0 0 (e_nlink e) 0
      (int (length (e_data e))) 0 0 0 0 (int (length (e_name e)) + 1)"
  define nm where "nm = map char_of (e_name e)"
  define ns where "ns = length nm + 1"
  define fs where "fs = length (e_data e)"
  define npad where "npad = pad4 (110 + ns)"
  define dpad where "dpad = pad4 fs"
  define d_off where "d_off = 110 + ns + length npad"
  define n_off where "n_off = d_off + fs + length dpad"
  define tail where "tail = nm @ [NUL] @ npad @ e_data e @ dpad @ rest"
  define bs where "bs = hdr @ tail"
  from assms have f: "fits32 (e_ino e)" "fits32 (e_mode e)" "fits32 (e_nlink e)"
    "fits32 (int (length (e_data e)))" "fits32 (int (length (e_name e)) + 1)"
    by (simp_all add: encodable_def)
  note lh = header_fields(1) [OF f, folded hdr_def]
  note hf = header_fields(2-7) [OF f, folded hdr_def, of tail, folded bs_def]
  have enc: "encoded e @ rest = bs"
    by (simp add: encoded_def Let_def hdr_def [symmetric] nm_def npad_def dpad_def lh
        bs_def tail_def ns_def fs_def)
  have nonul: "NUL \<notin> set nm" unfolding nm_def by (rule encodable_no_NUL [OF assms])
  have "takeWhile (\<lambda>c. c \<noteq> NUL) (nm @ [NUL]) = nm @ takeWhile (\<lambda>c. c \<noteq> NUL) [NUL]"
    by (rule takeWhile_append2) (use nonul in auto)
  then have tw: "takeWhile (\<lambda>c. c \<noteq> NUL) (nm @ [NUL]) = nm"
    by simp
  have a1: "align4 (110 + ns) = d_off"
    by (simp add: align4_pad4 npad_def d_off_def)
  have m: "d_off mod 4 = 0"
    unfolding a1 [symmetric] align4_def by simp
  have a2: "align4 (d_off + fs) = n_off"
  proof -
    from m have "(d_off + fs) mod 4 = fs mod 4" by presburger
    then have "pad4 (d_off + fs) = dpad"
      unfolding dpad_def pad4_def by (simp only:)
    then show ?thesis by (simp only: align4_pad4 n_off_def)
  qed
  have g0: "\<not> length bs < 110" by (simp add: bs_def lh)
  have g1: "ns \<noteq> 0" by (simp add: ns_def)
  have g2: "\<not> length bs < d_off + fs"
    by (simp add: bs_def tail_def lh d_off_def ns_def fs_def)
  have n: "take ns (drop 110 bs) = nm @ [NUL]"
    by (simp add: bs_def tail_def lh ns_def)
  have d: "take fs (drop d_off bs) = e_data e"
    by (simp add: bs_def tail_def lh d_off_def ns_def fs_def)
  have r: "drop n_off bs = rest"
    by (simp add: bs_def tail_def lh n_off_def d_off_def ns_def fs_def)
  have h0: "hfield 0 bs = Some (nat (e_ino e))" by (rule hf(2))
  have h1: "hfield (Suc 0) bs = Some (nat (e_mode e))" using hf(3) by simp
  have h4: "hfield 4 bs = Some (nat (e_nlink e))" by (rule hf(4))
  have h6: "hfield 6 bs = Some fs" using hf(5) by (simp add: fs_def)
  have h11: "hfield 11 bs = Some ns" using hf(6) by (simp add: ns_def nm_def nat_add_distrib)
  have "read_entry bs = Some (rentry_of e, rest)"
    unfolding read_entry_def
    by (simp add: g0 g1 g2 hf(1) h0 h1 h4 h6 h11 a1 a2 n d r tw rentry_of_def
        nm_def [symmetric] fs_def [symmetric] Let_def)
  then show ?thesis by (simp only: enc)
qed

lemma encoded_nonempty: "encoded e \<noteq> []"
  by (simp add: encoded_def Let_def)

lemma representable_name:
  assumes "representable e"
  shows "r_name (rentry_of e) \<noteq> ''TRAILER!!!''"
proof
  assume "r_name (rentry_of e) = ''TRAILER!!!''"
  then have "map of_char (map char_of (e_name e) :: string) = (map of_char ''TRAILER!!!'' :: nat list)"
    by (simp only: rentry_of_def rentry.simps)
  moreover from assms have "encodable e" by (simp add: representable_def)
  ultimately have "e_name e = str_of ''TRAILER!!!''"
    by (simp only: encodable_decode str_of_def)
  with assms show False by (simp add: representable_def)
qed

lemma encodable_trailer: "encodable trailer_entry"
  by (simp add: encodable_def trailer_entry_def fits32_def str_of_def)

lemma char_of_str_of: "map char_of (str_of s) = s"
  by (simp add: str_of_def)

lemma trailer_name: "r_name (rentry_of trailer_entry) = ''TRAILER!!!''"
  by (simp add: rentry_of_def trailer_entry_def char_of_str_of)

lemma newc_read_trailer: "newc_read (encoded trailer_entry @ rest) = Some ([], rentry_of trailer_entry)"
  by (subst newc_read.simps) (simp add: read_entry_encoded encodable_trailer trailer_name)

lemma newc_read_encoded:
  "\<forall>e\<in>set es. representable e \<Longrightarrow>
   newc_read (concat (map encoded es) @ encoded trailer_entry)
     = Some (map rentry_of es, rentry_of trailer_entry)"
proof (induction es)
  case Nil
  show ?case by (simp add: newc_read_trailer [of "[]", simplified])
next
  case (Cons e es)
  then have r: "representable e" and IH: "newc_read (concat (map encoded es) @ encoded trailer_entry)
     = Some (map rentry_of es, rentry_of trailer_entry)" by simp_all
  from r have enc: "encodable e" by (simp add: representable_def)
  let ?rest = "concat (map encoded es) @ encoded trailer_entry"
  have "newc_read (encoded e @ ?rest) = Some (rentry_of e # map rentry_of es, rentry_of trailer_entry)"
    by (subst newc_read.simps)
      (simp add: read_entry_encoded [OF enc] representable_name [OF r] IH encoded_nonempty)
  then show ?case by simp
qed

lemma rtriple_rentry:
  assumes "encodable e"
  shows "rtriple_of (rentry_of e) = triple_of e"
proof -
  from assms have "0 \<le> e_mode e" by (simp add: encodable_def fits32_def)
  with encodable_decode [OF assms] show ?thesis
    by (simp add: rtriple_of_def rentry_of_def triple_of_def)
qed

lemma representable_ascii: "representable e \<Longrightarrow> list_all (\<lambda>c. c < 128) (e_name e)"
  by (simp add: representable_def encodable_ascii)

lemma length_str_of: "length (str_of s) = length s"
  by (simp add: str_of_def)

lemma wide_mode_unreadable:
  "read_back [\<lparr>e_name = str_of ''a'', e_data = ''x'', e_mode = 2 ^ 32, e_ino = 1, e_nlink = 1\<rparr>]
     = Inr None"
proof -
  let ?e = "\<lparr>e_name = str_of ''a'', e_data = ''x'', e_mode = 2 ^ 32, e_ino = 1, e_nlink = 1\<rparr>"
  let ?h = "''070701000000011000000000000000000000000000000010000000000000001000000000000000000000000000000000000000200000000''"
  have "list_all (\<lambda>c. c < 128) (str_of ''a'')" by (simp add: str_of_def)
  then have a: "cpio_archive [?e] = Inr (concat (map encoded [?e]) @ encoded trailer_entry)"
    by (intro cpio_archive_encoded) simp
  have "cpio_header 1 (2 ^ 32) 0 0 1 0 (int (length ''x'')) 0 0 0 0
      (int (length (str_of ''a'')) + 1) = ?h"
    by (simp add: cpio_header_def hex_eval length_str_of)
  then have e: "encoded ?e = ?h @ map char_of (str_of ''a'') @ [NUL] @ pad4 (length ?h + 2)
      @ ''x'' @ pad4 1"
    by (simp add: encoded_def Let_def length_str_of)
  have b: "read_entry (?h @ rest) = None" for rest
    by (simp add: read_entry_def hfield_def hexval_def)
  have "newc_read (encoded ?e @ encoded trailer_entry) = None"
    unfolding e by (subst newc_read.simps) (simp only: append_assoc b option.case)
  with a show ?thesis
    by (simp add: read_back_def bind_err_def newc_extract_def)
qed


text \<open>
  Claim C6, as stated, fails: not every entry list reads back. An entry named like the
  sentinel ends the reader's loop, so that entry and all that follow are lost; a name
  outside ASCII makes the builder raise, so there is no archive to read; and a mode
  that needs nine hexadecimal digits shifts the fields behind it, so the reader
  rejects the header.
\<close>

theorem archive_round_trip_counterexample:
  "read_back [\<lparr>e_name = str_of ''TRAILER!!!'', e_data = ''x'', e_mode = 33188, e_ino = 1,
               e_nlink = 1\<rparr>] = Inr (Some [])
   \<and> read_back [\<lparr>e_name = str_of ''TRAILER!!!'', e_data = ''x'', e_mode = 33188, e_ino = 1,
               e_nlink = 1\<rparr>]
       \<noteq> Inr (Some [(str_of ''TRAILER!!!'', 33188, ''x'')])
   \<and> read_back [\<lparr>e_name = [233], e_data = ''x'', e_mode = 33188, e_ino = 1, e_nlink = 1\<rparr>]
       = Inl UnicodeEncodeError
   \<and> read_back [\<lparr>e_name = str_of ''a'', e_data = ''x'', e_mode = 2 ^ 32, e_ino = 1,
               e_nlink = 1\<rparr>] = Inr None"
proof -
  let ?e = "\<lparr>e_name = str_of ''TRAILER!!!'', e_data = ''x'', e_mode = 33188, e_ino = 1,
             e_nlink = 1\<rparr>"
  have enc: "encodable ?e"
    by (simp add: encodable_def fits32_def str_of_def)
  have nm: "r_name (rentry_of ?e) = ''TRAILER!!!''"
    by (simp add: rentry_of_def char_of_str_of)
  have "cpio_archive [?e] = Inr (concat (map encoded [?e]) @ encoded trailer_entry)"
    by (rule cpio_archive_encoded) (simp add: ascii_trailer)
  moreover have "newc_read (encoded ?e @ encoded trailer_entry) = Some ([], rentry_of ?e)"
    by (subst newc_read.simps) (simp add: read_entry_encoded [OF enc] nm)
  ultimately have a: "read_back [?e] = Inr (Some [])"
    by (simp add: read_back_def bind_err_def newc_extract_def)
  have "\<not> list_all (\<lambda>c. c < 128) [233 :: nat]" by simp
  then have "cpio_archive [\<lparr>e_name = [233], e_data = ''x'', e_mode = 33188, e_ino = 1,
      e_nlink = 1\<rparr>] = Inl UnicodeEncodeError"
    by (simp add: cpio_archive_def entry_bytes_def cpio_entry_not_ascii bind_err_def)
  then have b: "read_back [\<lparr>e_name = [233], e_data = ''x'', e_mode = 33188, e_ino = 1,
      e_nlink = 1\<rparr>] = Inl UnicodeEncodeError"
    by (simp add: read_back_def bind_err_def)
  from a b wide_mode_unreadable show ?thesis by simp
qed

text \<open>
  Claim C6, amended. For every ordered list of entries whose names are ASCII without
  NUL and differ from the sentinel \<open>TRAILER!!!\<close>, and whose name length plus one,
  content length, mode, inode and link count fit eight hexadecimal digits, the
  builder returns an archive, and reading it with a newc reader gives back exactly the
  names, modes and contents of the entries, in order.
\<close>

theorem archive_round_trip:
  assumes "\<forall>e\<in>set es. representable e"
  shows "read_back es = Inr (Some (map triple_of es))"
proof -
  from assms have "\<forall>e\<in>set es. list_all (\<lambda>c. c < 128) (e_name e)"
    by (simp add: representable_ascii)
  then have a: "cpio_archive es = Inr (concat (map encoded es) @ encoded trailer_entry)"
    by (rule cpio_archive_encoded)
  from assms have "map rtriple_of (map rentry_of es) = map triple_of es"
    by (simp add: rtriple_rentry representable_def)
  with newc_read_encoded [OF assms] show ?thesis
    by (simp add: read_back_def a bind_err_def newc_extract_def)
qed


theorem archive_round_trip_witness:
  "read_back [\<lparr>e_name = str_of ''etc'', e_data = [], e_mode = 16877, e_ino = 1, e_nlink = 2\<rparr>,
              \<lparr>e_name = str_of ''etc/motd'', e_data = ''hello'', e_mode = 33188, e_ino = 2,
                e_nlink = 1\<rparr>]
     = Inr (Some [(str_of ''etc'', 16877, []), (str_of ''etc/motd'', 33188, ''hello'')])"
  using archive_round_trip [of
      "[\<lparr>e_name = str_of ''etc'', e_data = [], e_mode = 16877, e_ino = 1, e_nlink = 2\<rparr>,
        \<lparr>e_name = str_of ''etc/motd'', e_data = ''hello'', e_mode = 33188, e_ino = 2,
          e_nlink = 1\<rparr>]"]
  by (simp add: representable_def encodable_def fits32_def triple_of_def str_of_def)

lemma initramfs_entries_representable:
  assumes "length init_data < 2 ^ 32" "length cert_data < 2 ^ 32"
  shows "\<forall>e\<in>set (initramfs_entries init_data cert_data). representable e"
  using assms
  by (simp add: initramfs_entries_def dir_entry_def representable_def encodable_def fits32_def
      str_of_def mode_dir_755_def mode_file_644_def mode_file_755_def)

text \<open>
  Claim C7. The archive of \<open>build_initramfs\<close> is the byte stream of nine entries
  followed by the trailer, whatever the two file contents are. The inodes of these ten
  entries are pairwise distinct; every directory that an entry's path lies under has a
  directory entry earlier in the list; and the last entry is the trailer, with the
  sentinel name, mode zero and no content. When both contents are shorter than
  \<open>2 ^ 32\<close> bytes, a newc reader finds exactly these entries in the byte stream.
\<close>

theorem build_initramfs_structure:
  "build_initramfs_raw init_data cert_data
     = cpio_archive (initramfs_entries init_data cert_data)
   \<and> build_initramfs_raw init_data cert_data
     = Inr (concat (map encoded (initramfs_entries init_data cert_data @ [trailer_entry])))
   \<and> distinct (map e_ino (initramfs_entries init_data cert_data @ [trailer_entry]))
   \<and> dirs_precede (initramfs_entries init_data cert_data @ [trailer_entry])
   \<and> last (initramfs_entries init_data cert_data @ [trailer_entry])
     = \<lparr>e_name = str_of ''TRAILER!!!'', e_data = [], e_mode = 0, e_ino = 0, e_nlink = 1\<rparr>
   \<and> (length init_data < 2 ^ 32 \<and> length cert_data < 2 ^ 32 \<longrightarrow>
        (\<exists>bs. build_initramfs_raw init_data cert_data = Inr bs
           \<and> newc_read bs = Some (map rentry_of (initramfs_entries init_data cert_data),
                                  rentry_of trailer_entry)))"
proof -
  have a: "build_initramfs_raw init_data cert_data
      = cpio_archive (initramfs_entries init_data cert_data)"
    by (rule build_initramfs_raw_archive)
  have b: "build_initramfs_raw init_data cert_data
      = Inr (concat (map encoded (initramfs_entries init_data cert_data @ [trailer_entry])))"
    by (simp add: build_initramfs_raw_encoded)
  have c: "distinct (map e_ino (initramfs_entries init_data cert_data @ [trailer_entry]))"
    by (simp add: initramfs_entries_def dir_entry_def trailer_entry_def)
  have d: "dirs_precede (initramfs_entries init_data cert_data @ [trailer_entry])"
    by code_simp
  have e: "last (initramfs_entries init_data cert_data @ [trailer_entry])
      = \<lparr>e_name = str_of ''TRAILER!!!'', e_data = [], e_mode = 0, e_ino = 0, e_nlink = 1\<rparr>"
    by (simp add: trailer_entry_def)
  have f: "\<exists>bs. build_initramfs_raw init_data cert_data = Inr bs
           \<and> newc_read bs = Some (map rentry_of (initramfs_entries init_data cert_data),
                                  rentry_of trailer_entry)"
    if "length init_data < 2 ^ 32" "length cert_data < 2 ^ 32"
    using newc_read_encoded [OF initramfs_entries_representable [OF that]]
    by (simp add: build_initramfs_raw_encoded)
  from a b c d e f show ?thesis by blast
qed

theorem build_initramfs_structure_witness:
  "build_initramfs_raw ''#!init'' ''0cert''
     = cpio_archive (initramfs_entries ''#!init'' ''0cert'')
   \<and> distinct (map e_ino (initramfs_entries ''#!init'' ''0cert'' @ [trailer_entry]))
   \<and> dirs_precede (initramfs_entries ''#!init'' ''0cert'' @ [trailer_entry])
   \<and> (\<exists>bs. build_initramfs_raw ''#!init'' ''0cert'' = Inr bs
           \<and> newc_read bs = Some (map rentry_of (initramfs_entries ''#!init'' ''0cert''),
                                  rentry_of trailer_entry))"
proof -
  have "length ''#!init'' < 2 ^ 32 \<and> length ''0cert'' < 2 ^ 32" by simp
  with build_initramfs_structure [of "''#!init''" "''0cert''"] show ?thesis by blast
qed

section \<open>Properties of the process-running functions\<close>

subsection \<open>QEMU runner\<close>

text \<open>
  Claim C1, as stated, fails: when the emulator is still running at the timeout,
  \<open>run_qemu\<close> returns no text. The \<open>TimeoutExpired\<close> exception of \<open>subprocess.run\<close>
  is not caught and reaches the caller.
\<close>

theorem run_qemu_timeout_counterexample:
  "run_qemu (\<lambda>cmd ramfs t. Expired (str_of ''Booting'') []) (str_of ''bzImage'') []
       (str_of ''disk.img'') (str_of ''ima_appraise=off ima_test_mode=noima'') (str_of ''/tmp/w'') 30
     = Inl (TimeoutExpired (str_of ''Booting'') [])
   \<and> run_qemu (\<lambda>cmd ramfs t. Expired (str_of ''Booting'') []) (str_of ''bzImage'') []
       (str_of ''disk.img'') (str_of ''ima_appraise=off ima_test_mode=noima'') (str_of ''/tmp/w'') 30
     \<noteq> Inr (str_of ''Booting'')"
  by (simp add: run_qemu_def subprocess_run_def bind_err_def)

text \<open>
  Claim C1, amended. When the emulator exceeds the timeout, \<open>run_qemu\<close> raises
  \<open>TimeoutExpired\<close>, which carries the output captured so far; it returns console
  text, standard output followed by standard error, only when the emulator exits
  within the timeout.
\<close>

theorem run_qemu_outcomes:
  "((\<forall>cmd. qemu cmd initramfs_data timeout = Expired out err) \<longrightarrow>
      run_qemu qemu kernel_path initramfs_data disk cmdline_extra work timeout
        = Inl (TimeoutExpired out err))
   \<and> ((\<forall>cmd. qemu cmd initramfs_data timeout = Exited r) \<longrightarrow>
      run_qemu qemu kernel_path initramfs_data disk cmdline_extra work timeout
        = Inr (stdout r @ stderr r))"
  by (simp add: run_qemu_def subprocess_run_def bind_err_def Let_def)

theorem run_qemu_outcomes_witness:
  "run_qemu (\<lambda>cmd ramfs t. Expired [66] []) [] [] [] [] [] 30 = Inl (TimeoutExpired [66] [])
   \<and> run_qemu (\<lambda>cmd ramfs t. Exited \<lparr>returncode = 0, stdout = [79], stderr = [75]\<rparr>)
        [] [] [] [] [] 30 = Inr [79, 75]"
  using run_qemu_outcomes [where qemu = "\<lambda>cmd ramfs t. Expired [66] []"
      and initramfs_data = "[]" and timeout = 30 and out = "[66]" and err = "[]"
      and kernel_path = "[]" and disk = "[]" and cmdline_extra = "[]" and work = "[]"]
    run_qemu_outcomes [where
      qemu = "\<lambda>cmd ramfs t. Exited \<lparr>returncode = 0, stdout = [79], stderr = [75]\<rparr>"
      and initramfs_data = "[]" and timeout = 30
      and r = "\<lparr>returncode = 0, stdout = [79], stderr = [75]\<rparr>"
      and kernel_path = "[]" and disk = "[]" and cmdline_extra = "[]" and work = "[]"]
  by simp

subsection \<open>ext4 image builder\<close>







lemma newline_space: "py_isspace 10"
  by (simp add: py_isspace_def)

lemma no_space_no_newline: "\<forall>c\<in>set t. \<not> py_isspace c \<Longrightarrow> 10 \<notin> set t"
  using newline_space by auto







subsection \<open>buck2 build helper\<close>

lemma strip_line:
  assumes "s \<noteq> []" "\<not> py_isspace (hd s)" "\<not> py_isspace (last s)"
  shows "py_strip (s @ [10]) = s"
proof -
  from assms obtain x xs where s: "s = x # xs" by (cases s) auto
  with assms have a: "dropWhile py_isspace (s @ [10]) = s @ [10]" by simp
  from assms obtain y ys where r: "rev s = y # ys" by (cases "rev s") auto
  then have "y = last s" by (metis list.sel(1) hd_rev)
  with assms(3) have b: "dropWhile py_isspace (rev s) = rev s" unfolding r by simp
  have c: "py_isspace 10" by (simp add: py_isspace_def)
  show ?thesis by (simp add: py_strip_def a b c)
qed

lemma splitlines_one:
  "\<forall>c\<in>set s. \<not> is_linebreak c \<Longrightarrow>
   splitlines_from cur s = (if cur @ s = [] then [] else [cur @ s])"
proof (induction cur s rule: splitlines_from.induct)
  case (1 cur)
  then show ?case by simp
next
  case (2 cur c)
  then show ?case by simp
next
  case (3 cur c d cs)
  from "3.prems" have n: "\<not> is_linebreak c" by simp
  then have "c \<noteq> 13" by (auto simp: is_linebreak_def)
  with n "3.IH"(3) "3.prems" show ?case by simp
qed

lemma split_1_two:
  assumes "tgt \<noteq> []" "\<forall>c\<in>set tgt. \<not> py_isspace c" "ws \<noteq> []" "\<forall>c\<in>set ws. py_isspace c"
    "p \<noteq> []" "\<not> py_isspace (hd p)"
  shows "py_split_1 (tgt @ ws @ p) = [tgt, p]"
proof -
  from assms obtain t ts where t: "tgt = t # ts" by (cases tgt) auto
  from assms obtain w wt where w: "ws = w # wt" by (cases ws) auto
  from assms obtain x xs where p: "p = x # xs" by (cases p) auto
  from t assms have a: "dropWhile py_isspace (tgt @ ws @ p) = tgt @ ws @ p" by simp
  from assms have b: "takeWhile (\<lambda>c. \<not> py_isspace c) (tgt @ ws @ p) = tgt"
    by (simp add: takeWhile_append2 w)
  from assms have c: "dropWhile (\<lambda>c. \<not> py_isspace c) (tgt @ ws @ p) = ws @ p"
    by (simp add: dropWhile_append2 w)
  from assms have d: "dropWhile py_isspace (ws @ p) = p"
    by (simp add: dropWhile_append2 p)
  from assms show ?thesis
    by (simp add: py_split_1_def a b c d Let_def)
qed

lemma is_linebreak_space: "is_linebreak c \<Longrightarrow> py_isspace c"
  by (auto simp: is_linebreak_def py_isspace_def)

lemma last_token_plain:
  assumes "p \<noteq> []" "\<forall>c\<in>set p. \<not> py_isspace c" "ws \<noteq> []" "\<forall>c\<in>set ws. py_isspace c"
  shows "last_token (pre @ ws @ p) = p"
proof -
  from assms obtain x xs where r: "rev p = x # xs" by (cases "rev p") auto
  then have "x \<in> set p" by (metis list.set_intros(1) set_rev)
  with assms(2) have a: "dropWhile py_isspace (rev p @ rev ws @ rev pre) = rev p @ rev ws @ rev pre"
    unfolding r by simp
  from assms obtain w wt where w: "rev ws = w # wt" by (cases "rev ws") auto
  then have "w \<in> set ws" by (metis list.set_intros(1) set_rev)
  with assms(4) have e: "takeWhile (\<lambda>c. \<not> py_isspace c) (rev ws @ rev pre) = []"
    unfolding w by simp
  have "takeWhile (\<lambda>c. \<not> py_isspace c) (rev p @ (rev ws @ rev pre))
      = rev p @ takeWhile (\<lambda>c. \<not> py_isspace c) (rev ws @ rev pre)"
    by (rule takeWhile_append2) (use assms(2) in auto)
  with e have b: "takeWhile (\<lambda>c. \<not> py_isspace c) (rev p @ rev ws @ rev pre) = rev p"
    by simp
  show ?thesis by (simp add: last_token_def a b)
qed

lemma single_line_lines:
  assumes "s \<noteq> []" "\<not> py_isspace (hd s)" "\<not> py_isspace (last s)"
    "\<forall>c\<in>set s. \<not> is_linebreak c"
  shows "py_splitlines (py_strip (s @ [10])) = [s]"
  using assms by (simp add: strip_line py_splitlines_def splitlines_one)

lemma first_output_path_skip:
  assumes "\<forall>l\<in>set skipped. length (py_split_1 l) \<noteq> 2" "py_split_1 line = [tgt, p]"
  shows "first_output_path (skipped @ line # later) = Some p"
  using assms by (induction skipped) (simp_all add: Let_def)

lemma tokens_from_skip: "tokens_from [] (dropWhile py_isspace s) = tokens_from [] s"
  by (induction s) simp_all

lemma tokens_from_cur:
  "cur \<noteq> [] \<Longrightarrow>
   tokens_from cur s
     = (cur @ takeWhile (\<lambda>c. \<not> py_isspace c) s)
       # tokens_from [] (dropWhile (\<lambda>c. \<not> py_isspace c) s)"
  by (induction s arbitrary: cur) simp_all

lemma tokens_from_first:
  assumes "s \<noteq> []" "\<not> py_isspace (hd s)"
  shows "tokens_from [] s
     = takeWhile (\<lambda>c. \<not> py_isspace c) s
       # tokens_from [] (dropWhile (\<lambda>c. \<not> py_isspace c) s)"
proof -
  from assms obtain c cs where s: "s = c # cs" by (cases s) auto
  with assms have "\<not> py_isspace c" by simp
  then show ?thesis unfolding s by (simp add: tokens_from_cur)
qed

lemma tokens_from_Nil_iff: "tokens_from [] s = [] \<longleftrightarrow> dropWhile py_isspace s = []"
proof (induction s)
  case Nil
  show ?case by simp
next
  case (Cons c cs)
  show ?case
  proof (cases "py_isspace c")
    case True
    with Cons show ?thesis by simp
  next
    case False
    then show ?thesis by (simp add: tokens_from_cur)
  qed
qed

lemma hd_dropWhile_space:
  "dropWhile py_isspace s \<noteq> [] \<Longrightarrow> \<not> py_isspace (hd (dropWhile py_isspace s))"
  by (metis hd_dropWhile)

lemma py_split_shape:
  "py_split s =
     (if dropWhile py_isspace s = [] then []
      else takeWhile (\<lambda>c. \<not> py_isspace c) (dropWhile py_isspace s)
           # tokens_from [] (dropWhile (\<lambda>c. \<not> py_isspace c) (dropWhile py_isspace s)))"
proof (cases "dropWhile py_isspace s = []")
  case True
  then show ?thesis by (simp add: py_split_def tokens_from_Nil_iff)
next
  case False
  have "py_split s = tokens_from [] (dropWhile py_isspace s)"
    by (simp add: py_split_def tokens_from_skip)
  also have "\<dots> = takeWhile (\<lambda>c. \<not> py_isspace c) (dropWhile py_isspace s)
           # tokens_from [] (dropWhile (\<lambda>c. \<not> py_isspace c) (dropWhile py_isspace s))"
    using False by (intro tokens_from_first hd_dropWhile_space)
  finally show ?thesis using False by simp
qed

lemma split_1_cases:
  "(dropWhile py_isspace s = [] \<and> py_split_1 s = [] \<and> py_split s = [])
   \<or> (dropWhile py_isspace s \<noteq> [] \<and> after_first_token s = []
        \<and> length (py_split_1 s) = 1 \<and> length (py_split s) = 1)
   \<or> (dropWhile py_isspace s \<noteq> [] \<and> after_first_token s \<noteq> []
        \<and> py_split_1 s = [hd (py_split s), after_first_token s]
        \<and> 2 \<le> length (py_split s))"
proof (cases "dropWhile py_isspace s = []")
  case True
  have "py_split_1 s = []"
    by (simp only: py_split_1_def Let_def True simp_thms if_True)
  moreover have "py_split s = []"
    by (simp only: py_split_shape [of s] True simp_thms if_True)
  ultimately show ?thesis using True by blast
next
  case ne: False
  let ?s1 = "dropWhile py_isspace s"
  let ?r = "dropWhile (\<lambda>c. \<not> py_isspace c) ?s1"
  let ?tok = "takeWhile (\<lambda>c. \<not> py_isspace c) ?s1"
  have sh: "py_split s = ?tok # tokens_from [] ?r"
    by (simp only: py_split_shape [of s] ne if_False)
  show ?thesis
  proof (cases "after_first_token s = []")
    case True
    then have A: "dropWhile py_isspace ?r = []" unfolding after_first_token_def .
    then have T: "tokens_from [] ?r = []" unfolding tokens_from_Nil_iff .
    have "py_split_1 s = [?tok]"
      by (simp only: py_split_1_def Let_def ne A simp_thms if_True if_False)
    then have "length (py_split_1 s) = 1" by simp
    moreover have "length (py_split s) = 1" by (simp add: sh T)
    ultimately show ?thesis using ne True by blast
  next
    case False
    then have A: "dropWhile py_isspace ?r \<noteq> []" unfolding after_first_token_def .
    then have "tokens_from [] ?r \<noteq> []" unfolding tokens_from_Nil_iff .
    then have "1 \<le> length (tokens_from [] ?r)" by (cases "tokens_from [] ?r") simp_all
    then have l: "2 \<le> length (py_split s)" by (simp add: sh)
    have h: "hd (py_split s) = ?tok" by (simp add: sh)
    have "py_split_1 s = [?tok, dropWhile py_isspace ?r]"
      by (simp only: py_split_1_def Let_def ne A simp_thms if_True if_False)
    then have "py_split_1 s = [hd (py_split s), after_first_token s]"
      by (simp only: h after_first_token_def)
    with l ne False show ?thesis by blast
  qed
qed

lemma split_1_two_iff: "length (py_split_1 s) = 2 \<longleftrightarrow> 2 \<le> length (py_split s)"
  using split_1_cases [of s] by auto

lemma split_1_parts:
  "2 \<le> length (py_split s) \<Longrightarrow> py_split_1 s = [hd (py_split s), after_first_token s]"
  using split_1_cases [of s] by auto

lemma line_parts:
  assumes "2 \<le> length (py_split s)"
  shows "\<exists>lead ws. s = lead @ hd (py_split s) @ ws @ after_first_token s
      \<and> (\<forall>c\<in>set lead. py_isspace c)
      \<and> hd (py_split s) \<noteq> [] \<and> (\<forall>c\<in>set (hd (py_split s)). \<not> py_isspace c)
      \<and> ws \<noteq> [] \<and> (\<forall>c\<in>set ws. py_isspace c)
      \<and> after_first_token s \<noteq> [] \<and> \<not> py_isspace (hd (after_first_token s))"
proof -
  let ?s1 = "dropWhile py_isspace s"
  let ?r = "dropWhile (\<lambda>c. \<not> py_isspace c) ?s1"
  let ?tok = "takeWhile (\<lambda>c. \<not> py_isspace c) ?s1"
  from assms split_1_cases [of s] have ne: "?s1 \<noteq> []" and rest: "after_first_token s \<noteq> []"
    by auto
  have sh: "py_split s = ?tok # tokens_from [] ?r"
    by (simp only: py_split_shape [of s] ne if_False)
  have hd: "hd (py_split s) = ?tok" by (simp add: sh)
  from rest have r: "?r \<noteq> []" unfolding after_first_token_def
    by (metis dropWhile.simps(1))
  have "py_isspace (hd ?r)" using r hd_dropWhile [of "\<lambda>c. \<not> py_isspace c" ?s1] by blast
  then have ws: "takeWhile py_isspace ?r \<noteq> []" using r by (cases ?r) auto
  have "\<not> py_isspace (hd ?s1)" using ne by (rule hd_dropWhile_space)
  then have tok: "?tok \<noteq> []" using ne by (cases ?s1) auto
  have "s = takeWhile py_isspace s @ ?tok @ takeWhile py_isspace ?r @ after_first_token s"
    unfolding after_first_token_def by (simp only: takeWhile_dropWhile_id)
  moreover have "\<forall>c\<in>set (takeWhile py_isspace s). py_isspace c"
    by (auto dest: set_takeWhileD)
  moreover have "\<forall>c\<in>set ?tok. \<not> py_isspace c" by (auto dest: set_takeWhileD)
  moreover have "\<forall>c\<in>set (takeWhile py_isspace ?r). py_isspace c"
    by (auto dest: set_takeWhileD)
  moreover have "\<not> py_isspace (hd (after_first_token s))"
    using rest unfolding after_first_token_def by (rule hd_dropWhile_space)
  ultimately show ?thesis unfolding hd using ws tok rest by blast
qed

lemma Path_normalises: "Path (str_of ''/a//b/./c/'') = Path (str_of ''/a/b/c'')"
  by (simp add: Path_def str_of_def)

text \<open>
  Claim C9, as stated, fails: for an output line whose path holds a space,
  \<open>_buck2_build\<close> returns the path of everything after the first token, not of the
  last token.
\<close>

theorem buck2_build_last_token_counterexample:
  "buck2_build True
     (\<lambda>argv t. Exited \<lparr>returncode = 0, stdout = str_of ''root//t:x /a b'' @ [10], stderr = []\<rparr>)
     (str_of ''0123456789ab'') (str_of ''root//t:x'') 600 = Inr (Path (str_of ''/a b''))
   \<and> last_token (str_of ''root//t:x /a b'') = str_of ''b''
   \<and> Path (str_of ''/a b'') \<noteq> Path (str_of ''b'')"
proof -
  have "Path (str_of ''/a b'') \<noteq> Path (str_of ''b'')"
    by (simp add: Path_def str_of_def)
  moreover have "last_token (str_of ''root//t:x /a b'') = str_of ''b''"
    by (simp add: str_of_def last_token_def py_isspace_def)
  moreover have "first_output_path (py_splitlines (py_strip (str_of ''root//t:x /a b'' @ [10])))
      = Some (str_of ''/a b'')"
    by (simp add: str_of_def py_strip_def py_splitlines_def py_split_1_def py_isspace_def
        is_linebreak_def Let_def)
  then have "buck2_build True
     (\<lambda>argv t. Exited \<lparr>returncode = 0, stdout = str_of ''root//t:x /a b'' @ [10], stderr = []\<rparr>)
     (str_of ''0123456789ab'') (str_of ''root//t:x'') 600 = Inr (Path (str_of ''/a b''))"
    by (simp add: buck2_build_def subprocess_run_def bind_err_def Let_def)
  ultimately show ?thesis by blast
qed

text \<open>
  Claim C9, amended. When the build succeeds, the returned path is taken from the first
  line of the stripped output that has at least two whitespace-separated tokens (lines
  with fewer are passed over): it is \<open>pathlib.Path\<close> of the whole remainder of that line
  after its first token and the whitespace behind it, leading whitespace of the line
  aside. It is the path of the last whitespace-separated token of the line when the
  remainder holds no whitespace.
\<close>

theorem buck2_build_output_path:
  assumes "\<forall>argv. tool argv timeout = Exited \<lparr>returncode = 0, stdout = out, stderr = err\<rparr>"
    and "py_splitlines (py_strip out) = skipped @ line # later"
    and "\<forall>l\<in>set skipped. length (py_split l) < 2"
    and "2 \<le> length (py_split line)"
  shows "buck2_build True tool iso_id target timeout = Inr (Path (after_first_token line))
       \<and> (\<exists>lead ws. line = lead @ hd (py_split line) @ ws @ after_first_token line
             \<and> (\<forall>c\<in>set lead. py_isspace c) \<and> ws \<noteq> [] \<and> (\<forall>c\<in>set ws. py_isspace c))
       \<and> ((\<forall>c\<in>set (after_first_token line). \<not> py_isspace c) \<longrightarrow>
             last_token line = after_first_token line)"
proof -
  from assms(3) have sk: "\<forall>l\<in>set skipped. length (py_split_1 l) \<noteq> 2"
    by (auto simp: split_1_two_iff)
  from first_output_path_skip [OF sk split_1_parts [OF assms(4)]]
  have "first_output_path (py_splitlines (py_strip out)) = Some (after_first_token line)"
    by (simp add: assms(2))
  with assms(1) have a: "buck2_build True tool iso_id target timeout
      = Inr (Path (after_first_token line))"
    by (simp add: buck2_build_def subprocess_run_def bind_err_def Let_def)
  from line_parts [OF assms(4)] obtain lead ws where
    d: "line = lead @ hd (py_split line) @ ws @ after_first_token line"
    and l: "\<forall>c\<in>set lead. py_isspace c" and w: "ws \<noteq> []" "\<forall>c\<in>set ws. py_isspace c"
    and r: "after_first_token line \<noteq> []"
    by blast
  have c: "last_token line = after_first_token line"
    if n: "\<forall>c\<in>set (after_first_token line). \<not> py_isspace c"
  proof -
    have "last_token ((lead @ hd (py_split line)) @ ws @ after_first_token line)
        = after_first_token line"
      using r n w by (rule last_token_plain)
    with d show ?thesis by (metis append_assoc)
  qed
  from a d l w c show ?thesis by blast
qed

theorem buck2_build_output_path_witness:
  "buck2_build True
     (\<lambda>argv t. Exited \<lparr>returncode = 0,
        stdout = [66, 85, 73, 76, 68, 10, 32, 114, 58, 120, 9, 47, 111, 47, 47, 120, 47, 10],
        stderr = []\<rparr>)
     [] [114, 58, 120] 600 = Inr (Path [47, 111, 47, 120])
   \<and> last_token [32, 114, 58, 120, 9, 47, 111, 47, 47, 120, 47] = [47, 111, 47, 47, 120, 47]"
proof -
  let ?out = "[66, 85, 73, 76, 68, 10, 32, 114, 58, 120, 9, 47, 111, 47, 47, 120, 47, 10] :: nat list"
  let ?line = "[32, 114, 58, 120, 9, 47, 111, 47, 47, 120, 47] :: nat list"
  have l: "py_splitlines (py_strip ?out) = [[66, 85, 73, 76, 68]] @ ?line # []"
    by (simp add: py_strip_def py_splitlines_def py_isspace_def is_linebreak_def)
  have s: "\<forall>l\<in>set [[66, 85, 73, 76, 68 :: nat]]. length (py_split l) < 2"
    by (simp add: py_split_def py_isspace_def)
  have t: "2 \<le> length (py_split ?line)"
    by (simp add: py_split_def py_isspace_def)
  have r: "after_first_token ?line = [47, 111, 47, 47, 120, 47]"
    by (simp add: after_first_token_def py_isspace_def)
  have p: "Path [47, 111, 47, 47, 120, 47] = Path [47, 111, 47, 120]"
    by (simp add: Path_def)
  have n: "\<forall>c\<in>set [47, 111, 47, 47, 120, 47 :: nat]. \<not> py_isspace c"
    by (simp add: py_isspace_def)
  from buck2_build_output_path [where tool = "\<lambda>argv t. Exited \<lparr>returncode = 0,
        stdout = ?out, stderr = []\<rparr>" and timeout = 600 and out = ?out and err = "[]"
      and skipped = "[[66, 85, 73, 76, 68]]" and line = ?line and later = "[]"
      and iso_id = "[]" and target = "[114, 58, 120]", OF _ l s t]
  show ?thesis using n by (simp add: r p)
qed


subsection \<open>Test cases\<close>

lemma bind_err_Inr_iff: "bind_err r f = Inr y \<longleftrightarrow> (\<exists>v. r = Inr v \<and> f v = Inr y)"
  by (cases r) (simp_all add: bind_err_def)

lemma py_assert_iff: "py_assert c msg = Inr u \<longleftrightarrow> c"
  by (simp add: py_assert_def)

lemma starts_with_iff: "starts_with n h \<longleftrightarrow> take (length n) h = n"
  by (induction n h rule: starts_with.induct) auto

lemma py_in_iff: "py_in n h \<longleftrightarrow> (\<exists>pre post. h = pre @ n @ post)"
proof (induction n h rule: py_in.induct)
  case (1 needle)
  then show ?case by auto
next
  case (2 needle h hs)
  have a: "starts_with needle (h # hs) \<longleftrightarrow> (\<exists>post. h # hs = needle @ post)"
    unfolding starts_with_iff
    by (metis append_eq_conv_conj)
  show ?case
  proof
    assume "py_in needle (h # hs)"
    then consider "starts_with needle (h # hs)" | "py_in needle hs" by auto
    then show "\<exists>pre post. h # hs = pre @ needle @ post"
    proof cases
      case 1
      with a obtain post where "h # hs = [] @ needle @ post" by auto
      then show ?thesis by blast
    next
      case 2
      with "2.IH" obtain pre post where "hs = pre @ needle @ post" by auto
      then have "h # hs = (h # pre) @ needle @ post" by simp
      then show ?thesis by blast
    qed
  next
    assume "\<exists>pre post. h # hs = pre @ needle @ post"
    then obtain pre post where e: "h # hs = pre @ needle @ post" by auto
    show "py_in needle (h # hs)"
    proof (cases pre)
      case Nil
      with e have "h # hs = needle @ post" by simp
      with a have "starts_with needle (h # hs)" by blast
      then show ?thesis by simp
    next
      case (Cons p ps)
      with e have "hs = ps @ needle @ post" by simp
      with "2.IH" show ?thesis by auto
    qed
  qed
qed


text \<open>
  Claim C2. Each of the three tests passes exactly when its stages return and the
  output of its boot has the marker outcomes of the table: binary-ran marker and
  init-verdict marker both present for enforce+signed, binary-ran marker absent and
  init-verdict marker present for enforce+unsigned, both present for
  disabled+unsigned. The image is built signed only in the first test.
\<close>

theorem scenario_assertions:
  "(test_enforced_signed_binary_runs build_image build_ramfs boot = Inr () \<longleftrightarrow>
      (\<exists>disk ramfs output. build_image True = Inr disk \<and> build_ramfs = Inr ramfs
         \<and> boot ramfs disk (str_of ''ima_appraise=enforce ima_test_mode=enforce_signed'')
             = Inr output
         \<and> py_in (str_of ''IMA-TEST-PASS'') output
         \<and> py_in (str_of ''IMA-RESULT:PASS'') output))
   \<and> (test_enforced_unsigned_binary_rejected build_image build_ramfs boot = Inr () \<longleftrightarrow>
      (\<exists>disk ramfs output. build_image False = Inr disk \<and> build_ramfs = Inr ramfs
         \<and> boot ramfs disk (str_of ''ima_appraise=enforce ima_test_mode=enforce_unsigned'')
             = Inr output
         \<and> \<not> py_in (str_of ''IMA-TEST-PASS'') output
         \<and> py_in (str_of ''IMA-RESULT:PASS'') output))
   \<and> (test_disabled_unsigned_binary_runs build_image build_ramfs boot = Inr () \<longleftrightarrow>
      (\<exists>disk ramfs output. build_image False = Inr disk \<and> build_ramfs = Inr ramfs
         \<and> boot ramfs disk (str_of ''ima_appraise=off ima_test_mode=noima'') = Inr output
         \<and> py_in (str_of ''IMA-TEST-PASS'') output
         \<and> py_in (str_of ''IMA-RESULT:PASS'') output))"
  unfolding test_enforced_signed_binary_runs_def test_enforced_unsigned_binary_rejected_def
    test_disabled_unsigned_binary_runs_def bind_err_Inr_iff py_assert_iff
  by blast

theorem scenario_assertions_witness:
  "test_enforced_signed_binary_runs (\<lambda>signed. Inr [100]) (Inr [])
       (\<lambda>ramfs disk cmdline. Inr (str_of ''IMA-TEST-PASS IMA-RESULT:PASS'')) = Inr ()
   \<and> test_enforced_unsigned_binary_rejected (\<lambda>signed. Inr [100]) (Inr [])
       (\<lambda>ramfs disk cmdline. Inr (str_of ''EACCES IMA-RESULT:PASS'')) = Inr ()
   \<and> test_enforced_unsigned_binary_rejected (\<lambda>signed. Inr [100]) (Inr [])
       (\<lambda>ramfs disk cmdline. Inr (str_of ''IMA-TEST-PASS IMA-RESULT:PASS'')) \<noteq> Inr ()
   \<and> test_disabled_unsigned_binary_runs (\<lambda>signed. Inr [100]) (Inr [])
       (\<lambda>ramfs disk cmdline. Inr (str_of ''IMA-RESULT:PASS'')) \<noteq> Inr ()"
  using scenario_assertions [where build_image = "\<lambda>signed. Inr [100]" and build_ramfs = "Inr []"
      and boot = "\<lambda>ramfs disk cmdline. Inr (str_of ''IMA-TEST-PASS IMA-RESULT:PASS'')"]
    scenario_assertions [where build_image = "\<lambda>signed. Inr [100]" and build_ramfs = "Inr []"
      and boot = "\<lambda>ramfs disk cmdline. Inr (str_of ''EACCES IMA-RESULT:PASS'')"]
    scenario_assertions [where build_image = "\<lambda>signed. Inr [100]" and build_ramfs = "Inr []"
      and boot = "\<lambda>ramfs disk cmdline. Inr (str_of ''IMA-RESULT:PASS'')"]
  by (simp add: str_of_def)

end
